theory Spec2Isabelle
  imports Main "HOL-Library.Word" "HOL-Library.Product_Lexorder"
begin

section \<open>Data model\<close>

text \<open>
  The scheduling strategies of \<^verbatim>\<open>os_scheduling_strategies.c\<close> work on an array of
  process records and on the global \<^verbatim>\<open>SchedulingInfo\<close>. The header files that declare
  the types are not part of the sources at hand; the declarations below follow the way
  the C file uses them.
\<close>

text \<open>
  Modelled from the spec: the enumeration \<^verbatim>\<open>ProcessState\<close> is declared in a header
  outside the sources. The spec lists the states "UNUSED, READY, RUNNING, BLOCKED"; the
  C file only compares against \<^verbatim>\<open>OS_PS_READY\<close> and \<^verbatim>\<open>OS_PS_RUNNING\<close>.
\<close>

datatype ProcessState = OS_PS_UNUSED | OS_PS_READY | OS_PS_RUNNING | OS_PS_BLOCKED

text \<open>
  Modelled from the spec: \<^verbatim>\<open>ProcessID\<close>, \<^verbatim>\<open>Priority\<close> and the element type of
  \<^verbatim>\<open>age[]\<close> are typedefs of a header outside the sources. The C file stores slot ids in
  \<^verbatim>\<open>uint8_t\<close> variables and returns them as \<^verbatim>\<open>ProcessID\<close>, so all of them are taken
  as 8-bit unsigned integers ("small positive integer" in the spec).
\<close>

type_synonym ProcessID = "8 word"
type_synonym Priority = "8 word"
type_synonym Age = "8 word"

text \<open>The two fields of \<^verbatim>\<open>Process\<close> that the strategies read.\<close>

record Process =
  state :: ProcessState
  priority :: Priority

text \<open>
  \<^verbatim>\<open>SchedulingInformation\<close>: the shared countdown and one age per slot. The countdown
  is assigned priorities and nothing else, and is taken as \<^verbatim>\<open>uint8_t\<close> like them.
\<close>

record SchedulingInformation =
  Zeitschiebe :: "8 word"
  age :: "Age list"

text \<open>
  Modelled from the spec: \<^verbatim>\<open>SchedulingStrategy\<close> is an enumeration of a header outside
  the sources; the C file names \<^verbatim>\<open>OS_SS_ROUND_ROBIN\<close> and \<^verbatim>\<open>OS_SS_INACTIVE_AGING\<close>,
  the other three members stand for the remaining strategies of the spec.
\<close>

datatype SchedulingStrategy =
  OS_SS_EVEN | OS_SS_RANDOM | OS_SS_RUN_TO_COMPLETION | OS_SS_ROUND_ROBIN | OS_SS_INACTIVE_AGING

text \<open>
  Modelled from the spec: \<^verbatim>\<open>MAX_NUMBER_OF_PROCESSES\<close> comes from \<^verbatim>\<open>defines.h\<close>, which
  is not among the sources. The spec's scenario uses a "table of 8 slots", the bound of
  six probes is described as N-2, and \<^verbatim>\<open>os_Scheduler_InactiveAging\<close> runs its loops
  up to the literal 8.
\<close>

definition MAX_NUMBER_OF_PROCESSES :: "8 word" where
  "MAX_NUMBER_OF_PROCESSES = 8"

subsection \<open>Array accesses\<close>

text \<open>
  C does not check array bounds: an access beyond the array is undefined behaviour. The
  model makes every array access explicit, with \<open>None\<close> for an access out of range, so
  that a selector that returns \<open>Some\<close> has only made accesses inside its arrays.
\<close>

definition proc_at :: "Process list \<Rightarrow> nat \<Rightarrow> Process option" where
  "proc_at processes i = (if i < length processes then Some (processes ! i) else None)"

definition age_at :: "Age list \<Rightarrow> nat \<Rightarrow> Age option" where
  "age_at ages i = (if i < length ages then Some (ages ! i) else None)"

definition set_age :: "Age list \<Rightarrow> nat \<Rightarrow> Age \<Rightarrow> Age list option" where
  "set_age ages i v = (if i < length ages then Some (ages[i := v]) else None)"

section \<open>The scan shared by Even, RoundRobin and RunToCompletion\<close>

text \<open>
  The three strategies contain the same \<^verbatim>\<open>do ... while (counter < 6)\<close> loop: probe
  slot \<open>i\<close>, leave the loop when it is READY, otherwise step to the next real slot
  (from the last slot back to slot 1) and count. The loop leaves either with the slot it
  found or, after the last probe, without one.
\<close>

datatype Scan = Found ProcessID | Exhausted

definition next_slot :: "ProcessID \<Rightarrow> ProcessID" where
  "next_slot i = (if i = MAX_NUMBER_OF_PROCESSES - 1 then 1 else i + 1)"

partial_function (option) scan_loop :: "Process list \<Rightarrow> ProcessID \<Rightarrow> 8 word \<Rightarrow> Scan option" where
  "scan_loop processes i counter =
     Option.bind (proc_at processes (unat i)) (\<lambda>p.
       if state p = OS_PS_READY then Some (Found i)
       else if counter + 1 < 6 then scan_loop processes (next_slot i) (counter + 1)
       else Some Exhausted)"

declare scan_loop.simps [code]

text \<open>\<^verbatim>\<open>os_Scheduler_Even\<close>: start behind \<open>current\<close>, return the slot found or 0.\<close>

definition os_Scheduler_Even :: "Process list \<Rightarrow> ProcessID \<Rightarrow> ProcessID option" where
  "os_Scheduler_Even processes current =
     Option.bind (scan_loop processes (next_slot current) 0) (\<lambda>r.
       case r of Found i \<Rightarrow> Some i | Exhausted \<Rightarrow> Some 0)"

section \<open>RoundRobin\<close>

text \<open>
  \<^verbatim>\<open>os_Scheduler_RoundRobin\<close> reads and writes the global \<^verbatim>\<open>SchedulingInfo\<close>; the
  model takes it as an argument and returns it with the slot. While the time slice is
  positive it is decremented and \<open>current\<close> is returned; otherwise the scan runs and
  the slice is set to the priority of the slot found.
\<close>

definition os_Scheduler_RoundRobin ::
  "Process list \<Rightarrow> ProcessID \<Rightarrow> SchedulingInformation \<Rightarrow> (ProcessID \<times> SchedulingInformation) option" where
  "os_Scheduler_RoundRobin processes current info =
     (if Zeitschiebe info > 0
      then Some (current, info\<lparr>Zeitschiebe := Zeitschiebe info - 1\<rparr>)
      else Option.bind (scan_loop processes (next_slot current) 0) (\<lambda>r.
             case r of
               Found i \<Rightarrow> Option.bind (proc_at processes (unat i)) (\<lambda>p.
                            Some (i, info\<lparr>Zeitschiebe := priority p\<rparr>))
             | Exhausted \<Rightarrow> Some (0, info)))"

section \<open>InactiveAging\<close>

text \<open>
  First phase (time slice positive): the loop \<^verbatim>\<open>for (int i = 1; i < 8; i++)\<close> adds
  the priority of every slot but \<open>current\<close> to its age; the addition is on
  \<^verbatim>\<open>uint8_t\<close> and wraps.
\<close>

fun age_accumulate :: "Process list \<Rightarrow> ProcessID \<Rightarrow> nat list \<Rightarrow> Age list \<Rightarrow> Age list option" where
  "age_accumulate processes current [] ages = Some ages"
| "age_accumulate processes current (i # is) ages =
     (if unat current \<noteq> i
      then Option.bind (proc_at processes i) (\<lambda>p.
           Option.bind (age_at ages i) (\<lambda>a.
           Option.bind (set_age ages i (a + priority p)) (\<lambda>ages'.
             age_accumulate processes current is ages')))
      else age_accumulate processes current is ages)"

text \<open>
  Second phase: the three conditions of the \<^verbatim>\<open>if / else if / else if\<close> chain, with
  C's left-to-right evaluation of \<^verbatim>\<open>&&\<close> (an operand is only read when the ones
  before it hold).
\<close>

definition aging_cond1 :: "Process list \<Rightarrow> Age list \<Rightarrow> nat \<Rightarrow> ProcessID \<Rightarrow> bool option" where
  "aging_cond1 processes ages i Max' =
     Option.bind (proc_at processes i) (\<lambda>p.
       if state p \<noteq> OS_PS_READY then Some False
       else Option.bind (age_at ages i) (\<lambda>ai.
            Option.bind (age_at ages (unat Max')) (\<lambda>am.
              Some (ai > am))))"

definition aging_cond2 :: "Process list \<Rightarrow> Age list \<Rightarrow> nat \<Rightarrow> ProcessID \<Rightarrow> bool option" where
  "aging_cond2 processes ages i Max' =
     Option.bind (proc_at processes i) (\<lambda>p.
       if state p \<noteq> OS_PS_READY then Some False
       else Option.bind (age_at ages i) (\<lambda>ai.
            Option.bind (age_at ages (unat Max')) (\<lambda>am.
              if ai \<noteq> am then Some False
              else Option.bind (proc_at processes (unat Max')) (\<lambda>pm.
                     Some (priority p > priority pm)))))"

definition aging_cond3 :: "Process list \<Rightarrow> Age list \<Rightarrow> nat \<Rightarrow> ProcessID \<Rightarrow> bool option" where
  "aging_cond3 processes ages i Max' =
     Option.bind (aging_cond2 processes ages i Max') (\<lambda>c.
       if c then Some (i < unat Max') else Some False)"

text \<open>Which branch of the chain assigns \<^verbatim>\<open>Max = i\<close>, if any.\<close>

datatype Branch = OlderAge | HigherPriority | LowerIndex | NoBranch

definition aging_branch :: "Process list \<Rightarrow> Age list \<Rightarrow> nat \<Rightarrow> ProcessID \<Rightarrow> Branch option" where
  "aging_branch processes ages i Max' =
     Option.bind (aging_cond1 processes ages i Max') (\<lambda>c1.
       if c1 then Some OlderAge
       else Option.bind (aging_cond2 processes ages i Max') (\<lambda>c2.
         if c2 then Some HigherPriority
         else Option.bind (aging_cond3 processes ages i Max') (\<lambda>c3.
           if c3 then Some LowerIndex else Some NoBranch)))"

fun aging_select :: "Process list \<Rightarrow> Age list \<Rightarrow> nat list \<Rightarrow> ProcessID \<Rightarrow> ProcessID option" where
  "aging_select processes ages [] Max' = Some Max'"
| "aging_select processes ages (i # is) Max' =
     Option.bind (aging_branch processes ages i Max') (\<lambda>b.
       aging_select processes ages is (case b of NoBranch \<Rightarrow> Max' | _ \<Rightarrow> of_nat i))"

definition os_Scheduler_InactiveAging ::
  "Process list \<Rightarrow> ProcessID \<Rightarrow> SchedulingInformation \<Rightarrow> (ProcessID \<times> SchedulingInformation) option" where
  "os_Scheduler_InactiveAging processes current info =
     (if Zeitschiebe info > 0
      then Option.bind (age_accumulate processes current [1..<8] (age info)) (\<lambda>ages.
             Some (current, info\<lparr>Zeitschiebe := Zeitschiebe info - 1, age := ages\<rparr>))
      else Option.bind (proc_at processes (unat current)) (\<lambda>pc.
           Option.bind (set_age (age info) (unat current) (priority pc)) (\<lambda>ages.
           Option.bind (aging_select processes ages [1..<8] 0) (\<lambda>Max'.
             Some (Max', info\<lparr>age := ages\<rparr>)))))"

section \<open>RunToCompletion\<close>

text \<open>
  \<^verbatim>\<open>os_Scheduler_RunToCompletion\<close> declares \<^verbatim>\<open>uint8_t counter;\<close> without an
  initial value and starts counting from whatever the variable holds. The model takes
  that value as the argument \<open>counter0\<close>. The scan starts at slot 1.
\<close>

definition os_Scheduler_RunToCompletion :: "Process list \<Rightarrow> ProcessID \<Rightarrow> 8 word \<Rightarrow> ProcessID option" where
  "os_Scheduler_RunToCompletion processes current counter0 =
     Option.bind (proc_at processes (unat current)) (\<lambda>p.
       if state p = OS_PS_RUNNING then Some current
       else Option.bind (scan_loop processes 1 counter0) (\<lambda>r.
              case r of Found i \<Rightarrow> Some i | Exhausted \<Rightarrow> Some 0))"

section \<open>Random\<close>

text \<open>
  \<^verbatim>\<open>os_Scheduler_Random\<close> calls \<^verbatim>\<open>os_getNumberOfReadyProcs()\<close> and \<^verbatim>\<open>rand()\<close>; the
  model takes both results as arguments (\<open>numOfReadyProc\<close> and \<open>r\<close>). The array
  \<^verbatim>\<open>procIndex\<close> has \<open>numOfReadyProc\<close> elements, none of them initialised; an element
  is \<open>None\<close> until the loop writes it. A write beyond the array, the remainder by zero
  and the read of an element never written have no defined result: \<open>None\<close>.
\<close>

fun collect_ready ::
  "Process list \<Rightarrow> ProcessID list \<Rightarrow> ProcessID option list \<Rightarrow> 8 word \<Rightarrow> (ProcessID option list \<times> 8 word) option" where
  "collect_ready processes [] procIndex i = Some (procIndex, i)"
| "collect_ready processes (j # js) procIndex i =
     Option.bind (proc_at processes (unat j)) (\<lambda>p.
       if state p = OS_PS_READY
       then (if unat i < length procIndex
             then collect_ready processes js (procIndex[unat i := Some j]) (i + 1)
             else None)
       else collect_ready processes js procIndex i)"

definition real_slots :: "ProcessID list" where
  "real_slots = map of_nat [1..<unat MAX_NUMBER_OF_PROCESSES]"

definition os_Scheduler_Random :: "Process list \<Rightarrow> ProcessID \<Rightarrow> 8 word \<Rightarrow> nat \<Rightarrow> ProcessID option" where
  "os_Scheduler_Random processes current numOfReadyProc r =
     Option.bind (collect_ready processes real_slots (replicate (unat numOfReadyProc) None) 0)
       (\<lambda>(procIndex, i).
          if i = 0 then Some 0
          else if numOfReadyProc = 0 then None
          else procIndex ! (r mod unat numOfReadyProc))"

text \<open>
  Modelled from the spec: \<^verbatim>\<open>os_getNumberOfReadyProcs\<close> is defined outside the sources.
  The spec describes Random as building "the set of currently READY real slots (excluding
  slot 0)" and drawing "a uniformly distributed index into that set", so the helper's
  result is the number of READY slots among the slots 1 to 7 of the table.
\<close>

definition os_getNumberOfReadyProcs :: "Process list \<Rightarrow> 8 word" where
  "os_getNumberOfReadyProcs processes =
     of_nat (length (filter (\<lambda>j. state (processes ! j) = OS_PS_READY) [1..<8]))"

section \<open>Reset operations\<close>

fun zero_ages :: "nat list \<Rightarrow> Age list \<Rightarrow> Age list option" where
  "zero_ages [] ages = Some ages"
| "zero_ages (i # is) ages = Option.bind (set_age ages i 0) (zero_ages is)"

text \<open>
  Modelled from the spec: \<^verbatim>\<open>os_getCurrentProc\<close> and \<^verbatim>\<open>os_getProcessSlot\<close> are defined
  outside the sources. By the spec the RoundRobin branch sets the counter "to the
  priority of the process in the currently-running slot"; the model takes the table and
  the current slot as arguments and reads that record.
\<close>

definition os_resetSchedulingInformation ::
  "SchedulingStrategy \<Rightarrow> Process list \<Rightarrow> ProcessID \<Rightarrow> SchedulingInformation \<Rightarrow> SchedulingInformation option" where
  "os_resetSchedulingInformation strategy processes current info =
     (if strategy = OS_SS_ROUND_ROBIN
      then Option.bind (proc_at processes (unat current)) (\<lambda>p.
             Some (info\<lparr>Zeitschiebe := priority p\<rparr>))
      else if strategy = OS_SS_INACTIVE_AGING
      then Option.bind (zero_ages [0..<unat MAX_NUMBER_OF_PROCESSES] (age info)) (\<lambda>ages.
             Some (info\<lparr>age := ages\<rparr>))
      else Some info)"

definition os_resetProcessSchedulingInformation ::
  "ProcessID \<Rightarrow> SchedulingInformation \<Rightarrow> SchedulingInformation option" where
  "os_resetProcessSchedulingInformation pid info =
     Option.bind (set_age (age info) (unat pid) 0) (\<lambda>ages. Some (info\<lparr>age := ages\<rparr>))"

section \<open>Notions used in the statements\<close>

text \<open>A real slot is an index from 1 to \<^verbatim>\<open>MAX_NUMBER_OF_PROCESSES - 1\<close>; slot 0 is the idle slot.\<close>

definition real_slot :: "ProcessID \<Rightarrow> bool" where
  "real_slot k = (1 \<le> k \<and> k < MAX_NUMBER_OF_PROCESSES)"

definition ready :: "Process list \<Rightarrow> ProcessID \<Rightarrow> bool" where
  "ready processes k = (state (processes ! unat k) = OS_PS_READY)"

text \<open>
  The number of probes the \<^verbatim>\<open>do ... while (counter < 6)\<close> loop makes when no probed slot
  is READY, as a function of the value \<open>counter\<close> starts with: six from 0, one from 5
  and above, and seven from 255, where the increment wraps to 0.
\<close>

definition probes :: "8 word \<Rightarrow> nat" where
  "probes c = (if c = 255 then 7 else if c < 6 then 6 - unat c else 1)"

text \<open>The first \<open>n\<close> slots the loop probes from slot \<open>i\<close> on.\<close>

fun probe_seq :: "ProcessID \<Rightarrow> nat \<Rightarrow> ProcessID list" where
  "probe_seq i 0 = []"
| "probe_seq i (Suc n) = i # probe_seq (next_slot i) n"

definition first_ready :: "Process list \<Rightarrow> ProcessID list \<Rightarrow> ProcessID" where
  "first_ready processes ks = (case find (ready processes) ks of None \<Rightarrow> 0 | Some k \<Rightarrow> k)"

text \<open>
  The slots a scan of six probes behind \<open>current\<close> reaches: every real slot but
  \<open>current\<close> itself, and from the idle slot every real slot but the last one.
\<close>

definition probed :: "ProcessID \<Rightarrow> ProcessID \<Rightarrow> bool" where
  "probed current k = (real_slot k \<and> k \<noteq> current \<and> \<not> (current = 0 \<and> k = 7))"

text \<open>
  Concrete tables and states: an empty table of eight slots, the scenario of the spec
  (slots 2 and 5 READY with priorities 3 and 1), tables with a single READY slot, and the
  scheduling state after start-up.
\<close>

definition proc :: "ProcessState \<Rightarrow> Priority \<Rightarrow> Process" where
  "proc s p = \<lparr>state = s, priority = p\<rparr>"

definition empty_table :: "Process list" where
  "empty_table = replicate 8 (proc OS_PS_UNUSED 0)"

definition scenario_table :: "Process list" where
  "scenario_table = empty_table[2 := proc OS_PS_READY 3, 5 := proc OS_PS_READY 1]"

definition single_ready :: "nat \<Rightarrow> Process list" where
  "single_ready k = empty_table[k := proc OS_PS_READY 1]"

definition fresh_info :: SchedulingInformation where
  "fresh_info = \<lparr>Zeitschiebe = 0, age = replicate 8 0\<rparr>"

text \<open>
  Modelled from the spec: the kernel's scheduler tick is outside the sources. By the spec
  the kernel calls the selector once per tick, "passing the live table and the
  currently-running slot index", and runs the slot returned. \<open>RoundRobin_calls n\<close> is
  \<open>n\<close> such calls in a row on an unchanged table, each with the slot the previous call
  returned as \<open>current\<close>.
\<close>

fun RoundRobin_calls ::
  "nat \<Rightarrow> Process list \<Rightarrow> ProcessID \<Rightarrow> SchedulingInformation \<Rightarrow> (ProcessID \<times> SchedulingInformation) option" where
  "RoundRobin_calls 0 processes current info = Some (current, info)"
| "RoundRobin_calls (Suc n) processes current info =
     Option.bind (os_Scheduler_RoundRobin processes current info) (\<lambda>(current', info').
       RoundRobin_calls n processes current' info')"

text \<open>
  The selection loop of InactiveAging compares slots by age first and by priority second;
  \<open>key\<close> is that pair under the lexicographic order, \<open>beats\<close> the test that makes
  slot \<open>i\<close> the new candidate, and \<open>pick\<close> the candidate after a run over the indices.
\<close>

definition key :: "Process list \<Rightarrow> Age list \<Rightarrow> nat \<Rightarrow> Age \<times> Priority" where
  "key processes ages i = (ages ! i, priority (processes ! i))"

definition beats :: "Process list \<Rightarrow> Age list \<Rightarrow> nat \<Rightarrow> nat \<Rightarrow> bool" where
  "beats processes ages i m =
     (state (processes ! i) = OS_PS_READY \<and> key processes ages m < key processes ages i)"

fun pick :: "Process list \<Rightarrow> Age list \<Rightarrow> nat list \<Rightarrow> nat \<Rightarrow> nat" where
  "pick processes ages [] m = m"
| "pick processes ages (i # is) m =
     pick processes ages is (if beats processes ages i m then i else m)"

text \<open>
  Slot \<open>k\<close> is ahead of the idle slot in the comparison of the selection loop: its age
  is above the age of slot 0, or equal with a priority above that of slot 0.
\<close>

definition above_idle :: "Process list \<Rightarrow> Age list \<Rightarrow> ProcessID \<Rightarrow> bool" where
  "above_idle processes ages k =
     (ages ! 0 < ages ! unat k \<or>
      (ages ! 0 = ages ! unat k \<and> priority (processes ! 0) < priority (processes ! unat k)))"

text \<open>Two READY slots of equal priority with ages 5 and 3.\<close>

definition aging_table :: "Process list" where
  "aging_table = empty_table[1 := proc OS_PS_READY 1, 2 := proc OS_PS_READY 1]"

definition aging_info :: SchedulingInformation where
  "aging_info = \<lparr>Zeitschiebe = 0, age = [0, 5, 3, 0, 0, 0, 0, 0]\<rparr>"

section \<open>Slots and probes\<close>

lemma unat_lt_256: "unat (c :: 8 word) < 256"
  using unsigned_less [of c, where ?'a = nat] by simp

lemma unat_succ8: "unat (c + 1 :: 8 word) = (if unat c = 255 then 0 else Suc (unat c))"
  using unat_lt_256 [of c] by (simp add: unat_word_ariths)

lemma slot_cases:
  "(x::8 word) < 8 \<Longrightarrow> x = 0 \<or> x = 1 \<or> x = 2 \<or> x = 3 \<or> x = 4 \<or> x = 5 \<or> x = 6 \<or> x = 7"
  by (simp add: word_less_nat_alt word_unat_eq_iff) arith

lemma real_slot_unat: "real_slot k = (1 \<le> unat k \<and> unat k < 8)"
  by (simp add: real_slot_def MAX_NUMBER_OF_PROCESSES_def word_le_nat_alt word_less_nat_alt)

lemma real_slot_nonzero: "real_slot k \<Longrightarrow> k \<noteq> 0"
  by (auto simp: real_slot_def)

lemma unat_next_slot:
  "unat (next_slot i) = (if unat i = 7 then 1 else if unat i = 255 then 0 else Suc (unat i))"
  by (simp add: next_slot_def MAX_NUMBER_OF_PROCESSES_def unat_succ8 word_unat_eq_iff)

lemma real_slot_next: "real_slot i \<Longrightarrow> real_slot (next_slot i)"
  by (auto simp: real_slot_unat unat_next_slot)

lemma real_slot_start: "current < 8 \<Longrightarrow> real_slot (next_slot current)"
  using slot_cases [of current]
  by (auto simp: real_slot_def next_slot_def MAX_NUMBER_OF_PROCESSES_def)

lemma probes_unat:
  "probes c = (if unat c = 255 then 7 else if unat c < 6 then 6 - unat c else 1)"
  by (simp add: probes_def word_unat_eq_iff word_less_nat_alt)

lemma probes_step: "c + 1 < 6 \<Longrightarrow> probes c = Suc (probes (c + 1))"
  using unat_lt_256 [of c]
  by (auto simp: probes_unat word_less_nat_alt unat_succ8 split: if_splits)

lemma probes_last: "\<not> c + 1 < 6 \<Longrightarrow> probes c = 1"
  using unat_lt_256 [of c]
  by (auto simp: probes_unat word_less_nat_alt unat_succ8 split: if_splits)

lemma probes_pos: "0 < probes c"
  by (simp add: probes_unat)

lemma probe_seq_real: "real_slot i \<Longrightarrow> k \<in> set (probe_seq i n) \<Longrightarrow> real_slot k"
proof (induction n arbitrary: i)
  case 0
  then show ?case by simp
next
  case (Suc n)
  from Suc.prems(2) have "k = i \<or> k \<in> set (probe_seq (next_slot i) n)" by simp
  then show ?case using Suc.IH [of "next_slot i"] Suc.prems(1) real_slot_next by blast
qed

lemma probe_seq_6:
  "probe_seq i 6 = [i, next_slot i, next_slot (next_slot i), next_slot (next_slot (next_slot i)),
     next_slot (next_slot (next_slot (next_slot i))),
     next_slot (next_slot (next_slot (next_slot (next_slot i))))]"
  by (simp add: numeral_eq_Suc)

lemma probed_in_seq:
  assumes "current < 8" "probed current k"
  shows "k \<in> set (probe_seq (next_slot current) 6)"
proof -
  have k: "k = 1 \<or> k = 2 \<or> k = 3 \<or> k = 4 \<or> k = 5 \<or> k = 6 \<or> k = 7"
    using assms(2) slot_cases [of k]
    by (auto simp: probed_def real_slot_def MAX_NUMBER_OF_PROCESSES_def)
  from slot_cases [OF assms(1)] k assms(2) show ?thesis
    unfolding probe_seq_6 probed_def
    by (elim disjE; simp add: next_slot_def MAX_NUMBER_OF_PROCESSES_def)
qed

section \<open>The scan loop\<close>

text \<open>
  On a table of eight records and from a real slot, the loop terminates, reads only inside
  the table, and finds the first READY slot among the slots it probes.
\<close>

lemma scan_loop_eq:
  "length processes = 8 \<Longrightarrow> real_slot i \<Longrightarrow> probes c = n \<Longrightarrow>
   scan_loop processes i c =
     Some (case find (ready processes) (probe_seq i n) of None \<Rightarrow> Exhausted | Some k \<Rightarrow> Found k)"
proof (induction n arbitrary: i c)
  case 0
  then show ?case using probes_pos [of c] by simp
next
  case (Suc n)
  have rd: "proc_at processes (unat i) = Some (processes ! unat i)"
    using Suc.prems by (simp add: proc_at_def real_slot_unat)
  show ?case
  proof (cases "ready processes i")
    case True
    then show ?thesis
      by (subst scan_loop.simps) (simp add: rd ready_def)
  next
    case False
    show ?thesis
    proof (cases "c + 1 < 6")
      case True
      then have "probes (c + 1) = n" using Suc.prems probes_step [of c] by simp
      then have "scan_loop processes (next_slot i) (c + 1) =
          Some (case find (ready processes) (probe_seq (next_slot i) n) of
                  None \<Rightarrow> Exhausted | Some k \<Rightarrow> Found k)"
        using Suc.IH [of "next_slot i" "c + 1"] Suc.prems real_slot_next by simp
      then show ?thesis using False True
        by (subst scan_loop.simps) (simp add: rd ready_def)
    next
      case c: False
      then have "n = 0" using Suc.prems probes_last [of c] by simp
      then show ?thesis using False c
        by (subst scan_loop.simps) (simp add: rd ready_def)
    qed
  qed
qed

lemma first_ready_cases:
  "first_ready processes ks = 0 \<and> (\<forall>k \<in> set ks. \<not> ready processes k) \<or>
   first_ready processes ks \<in> set ks \<and> ready processes (first_ready processes ks)"
  by (auto simp: first_ready_def find_None_iff find_Some_iff split: option.split)

lemma first_ready_found:
  assumes "k \<in> set ks" "ready processes k" "\<forall>j \<in> set ks. real_slot j"
  shows "first_ready processes ks \<noteq> 0 \<and> ready processes (first_ready processes ks)
         \<and> first_ready processes ks \<in> set ks"
  using first_ready_cases [of processes ks] assms real_slot_nonzero by auto

lemma first_ready_lt:
  assumes "\<forall>j \<in> set ks. real_slot j"
  shows "first_ready processes ks < 8"
  using first_ready_cases [of processes ks] assms
  by (auto simp: real_slot_def MAX_NUMBER_OF_PROCESSES_def)

lemma Even_eq:
  assumes "length processes = 8" "current < 8"
  shows "os_Scheduler_Even processes current =
         Some (first_ready processes (probe_seq (next_slot current) 6))"
proof -
  have "probes 0 = 6" by (simp add: probes_def)
  then show ?thesis
    using scan_loop_eq [OF assms(1) real_slot_start [OF assms(2)], of 0 6]
    by (simp add: os_Scheduler_Even_def first_ready_def split: option.split)
qed

lemma find_probe_real:
  "real_slot i \<Longrightarrow> find (ready processes) (probe_seq i n) = Some k \<Longrightarrow> real_slot k \<and> ready processes k"
  using probe_seq_real [of i k n] by (auto simp: find_Some_iff)

lemma RoundRobin_scan_eq:
  assumes "length processes = 8" "current < 8" "Zeitschiebe info = 0"
  shows "os_Scheduler_RoundRobin processes current info =
         Some (case find (ready processes) (probe_seq (next_slot current) 6) of
                 None \<Rightarrow> (0, info)
               | Some k \<Rightarrow> (k, info\<lparr>Zeitschiebe := priority (processes ! unat k)\<rparr>))"
proof -
  have p: "probes 0 = 6" by (simp add: probes_def)
  have rs: "real_slot (next_slot current)" by (rule real_slot_start [OF assms(2)])
  show ?thesis
  proof (cases "find (ready processes) (probe_seq (next_slot current) 6)")
    case None
    then show ?thesis
      using scan_loop_eq [OF assms(1) rs p] assms(3)
      by (simp add: os_Scheduler_RoundRobin_def)
  next
    case (Some k)
    then have "unat k < 8" using find_probe_real [OF rs] by (simp add: real_slot_unat)
    then show ?thesis
      using scan_loop_eq [OF assms(1) rs p] assms(1,3) Some
      by (simp add: os_Scheduler_RoundRobin_def proc_at_def)
  qed
qed

lemma RoundRobin_slot_eq_Even:
  assumes "length processes = 8" "current < 8" "Zeitschiebe info = 0"
  shows "map_option fst (os_Scheduler_RoundRobin processes current info) =
         os_Scheduler_Even processes current"
  by (simp add: RoundRobin_scan_eq [OF assms] Even_eq [OF assms(1,2)] first_ready_def
      split: option.split)

lemma RunToCompletion_eq:
  assumes "length processes = 8" "current < 8"
  shows "os_Scheduler_RunToCompletion processes current counter0 =
         Some (if state (processes ! unat current) = OS_PS_RUNNING then current
               else first_ready processes (probe_seq 1 (probes counter0)))"
proof -
  have c: "proc_at processes (unat current) = Some (processes ! unat current)"
    using assms by (simp add: proc_at_def word_less_nat_alt)
  have rs: "real_slot 1" by (simp add: real_slot_unat)
  show ?thesis
    using scan_loop_eq [OF assms(1) rs refl, of counter0]
    by (simp add: os_Scheduler_RunToCompletion_def c first_ready_def split: option.split)
qed

lemma RoundRobin_calls_slice:
  "n \<le> unat (Zeitschiebe info) \<Longrightarrow>
   RoundRobin_calls n processes current info =
     Some (current, info\<lparr>Zeitschiebe := Zeitschiebe info - of_nat n\<rparr>)"
proof (induction n arbitrary: info)
  case 0
  then show ?case by simp
next
  case (Suc n)
  then have pos: "0 < Zeitschiebe info" by (simp add: word_less_nat_alt)
  then have "Zeitschiebe info \<noteq> 0" by auto
  then have "unat (Zeitschiebe info - 1) = unat (Zeitschiebe info) - 1"
    by (rule unat_minus_one)
  then have "n \<le> unat (Zeitschiebe (info\<lparr>Zeitschiebe := Zeitschiebe info - 1\<rparr>))"
    using Suc.prems by simp
  from Suc.IH [OF this] pos show ?case
    by (simp add: os_Scheduler_RoundRobin_def algebra_simps)
qed

lemma RoundRobin_calls_Suc:
  "RoundRobin_calls n processes current info = Some (current', info') \<Longrightarrow>
   RoundRobin_calls (Suc n) processes current info =
     os_Scheduler_RoundRobin processes current' info'"
proof (induction n arbitrary: current info)
  case 0
  then show ?case
    by (cases "os_Scheduler_RoundRobin processes current info") auto
next
  case (Suc n)
  from Suc.prems obtain a b where
    ab: "os_Scheduler_RoundRobin processes current info = Some (a, b)"
    and rest: "RoundRobin_calls n processes a b = Some (current', info')"
    by (auto split: Option.bind_splits)
  have "RoundRobin_calls (Suc (Suc n)) processes current info =
        RoundRobin_calls (Suc n) processes a b"
    by (subst RoundRobin_calls.simps(2)) (simp add: ab)
  then show ?case using Suc.IH [OF rest] by simp
qed

section \<open>Even: the scan does not reach every real slot\<close>

text \<open>
  Claim C2 says that with exactly one READY real slot \<open>k\<close>, Even returns \<open>k\<close> for
  every current slot. The loop of \<^verbatim>\<open>os_Scheduler_Even\<close> makes six probes and there are
  seven real slots, so one real slot is left out of every scan. With slot 7 the only READY
  slot and the idle slot current, and with slot 3 the only READY slot and itself current,
  \<^verbatim>\<open>os_Scheduler_Even\<close> returns the idle slot 0.
\<close>

theorem Even_misses_single_ready_slot:
  "filter (ready (single_ready 7)) real_slots = [7] \<and>
   os_Scheduler_Even (single_ready 7) 0 = Some 0 \<and>
   filter (ready (single_ready 3)) real_slots = [3] \<and>
   os_Scheduler_Even (single_ready 3) 3 = Some 0"
  by code_simp

section \<open>RoundRobin: the running slice\<close>

text \<open>
  Claim C10: while the time slice is positive, \<^verbatim>\<open>os_Scheduler_RoundRobin\<close> decrements
  it and returns \<open>current\<close> without reading the table; the returned slot and the new
  scheduling state are the same for any two tables, whatever the state of the current
  slot.
\<close>

theorem RoundRobin_slice_ignores_table:
  assumes "Zeitschiebe info > 0"
  shows "os_Scheduler_RoundRobin processes current info =
           Some (current, info\<lparr>Zeitschiebe := Zeitschiebe info - 1\<rparr>) \<and>
         os_Scheduler_RoundRobin processes' current info =
           os_Scheduler_RoundRobin processes current info"
  using assms by (simp add: os_Scheduler_RoundRobin_def)

theorem RoundRobin_slice_ignores_table_witness:
  "Zeitschiebe (fresh_info\<lparr>Zeitschiebe := 2\<rparr>) > 0 \<and>
   state (empty_table ! 3) = OS_PS_UNUSED \<and>
   os_Scheduler_RoundRobin empty_table 3 (fresh_info\<lparr>Zeitschiebe := 2\<rparr>) =
     Some (3, fresh_info\<lparr>Zeitschiebe := 1\<rparr>) \<and>
   os_Scheduler_RoundRobin scenario_table 3 (fresh_info\<lparr>Zeitschiebe := 2\<rparr>) =
     os_Scheduler_RoundRobin empty_table 3 (fresh_info\<lparr>Zeitschiebe := 2\<rparr>)"
proof -
  have h: "Zeitschiebe (fresh_info\<lparr>Zeitschiebe := 2\<rparr>) > 0" by simp
  have u: "state (empty_table ! 3) = OS_PS_UNUSED" by (simp add: empty_table_def proc_def)
  from RoundRobin_slice_ignores_table [OF h, of empty_table 3 scenario_table] h u
  show ?thesis by simp
qed

section \<open>InactiveAging: the third branch\<close>

text \<open>
  Claim C9: in the selection loop of \<^verbatim>\<open>os_Scheduler_InactiveAging\<close> the third
  \<^verbatim>\<open>else if\<close> is never taken: whenever its condition is tested, the first two
  conditions are false, and its own condition repeats the second one. This holds for
  every table, every array of ages, every loop index and every candidate.
\<close>

theorem InactiveAging_third_branch_unreachable:
  "aging_branch processes ages i Max' \<noteq> Some LowerIndex"
  by (auto simp: aging_branch_def aging_cond3_def split: Option.bind_splits if_splits)

section \<open>RoundRobin: the length of a slice\<close>

lemma info_reset_slice: "Zeitschiebe info = 0 \<Longrightarrow> info\<lparr>Zeitschiebe := p, Zeitschiebe := 0\<rparr> = info"
  by (cases info) simp

text \<open>
  Claim C3, as amended. When the scan of \<^verbatim>\<open>os_Scheduler_RoundRobin\<close> selects a READY
  slot \<open>s\<close> of priority \<open>p\<close> (the time slice was 0 and becomes \<open>p\<close>), and the table
  does not change, each of the next \<open>p\<close> calls returns \<open>s\<close> again; after them the time
  slice is 0 again, and call number \<open>p + 1\<close> after the selection is the one that scans:
  it returns what the scan of Even returns from \<open>s\<close>.
\<close>

theorem RoundRobin_slice_length:
  assumes "length processes = unat MAX_NUMBER_OF_PROCESSES"
    and "current < MAX_NUMBER_OF_PROCESSES"
    and "Zeitschiebe info = 0"
    and "os_Scheduler_RoundRobin processes current info = Some (s, info')"
    and "s \<noteq> 0"
  shows "ready processes s \<and>
         Zeitschiebe info' = priority (processes ! unat s) \<and>
         (\<forall>j. j \<le> unat (priority (processes ! unat s)) \<longrightarrow>
              map_option fst (RoundRobin_calls j processes s info') = Some s) \<and>
         RoundRobin_calls (unat (priority (processes ! unat s))) processes s info' = Some (s, info) \<and>
         map_option fst (RoundRobin_calls (Suc (unat (priority (processes ! unat s)))) processes s info')
           = os_Scheduler_Even processes s"
proof -
  let ?p = "priority (processes ! unat s)"
  have len: "length processes = 8" and cur: "current < 8"
    using assms(1,2) by (simp_all add: MAX_NUMBER_OF_PROCESSES_def)
  have rs: "real_slot (next_slot current)" by (rule real_slot_start [OF cur])
  from assms(4,5) RoundRobin_scan_eq [OF len cur assms(3)]
  have found: "find (ready processes) (probe_seq (next_slot current) 6) = Some s"
    and info': "info' = info\<lparr>Zeitschiebe := ?p\<rparr>"
    by (auto split: option.splits)
  from find_probe_real [OF rs found] have s: "real_slot s" and r: "ready processes s" by simp_all
  then have s8: "s < 8" by (simp add: real_slot_def MAX_NUMBER_OF_PROCESSES_def)
  have z: "Zeitschiebe info' = ?p" by (simp add: info')
  have slice: "RoundRobin_calls j processes s info' =
                 Some (s, info'\<lparr>Zeitschiebe := ?p - of_nat j\<rparr>)" if "j \<le> unat ?p" for j
    using RoundRobin_calls_slice [of j info' processes s] that z by simp
  have last: "RoundRobin_calls (unat ?p) processes s info' = Some (s, info)"
    using slice [of "unat ?p"] assms(3) by (simp add: info' info_reset_slice)
  have "RoundRobin_calls (Suc (unat ?p)) processes s info' = os_Scheduler_RoundRobin processes s info"
    by (rule RoundRobin_calls_Suc [OF last])
  then have scan: "map_option fst (RoundRobin_calls (Suc (unat ?p)) processes s info')
                   = os_Scheduler_Even processes s"
    using RoundRobin_slot_eq_Even [OF len s8 assms(3)] by simp
  show ?thesis using r z slice last scan by simp
qed

text \<open>
  The claim as stated puts the new scan at call number \<open>p\<close>. In the scenario of the
  spec the scan from slot 5 selects slot 2 of priority 3. Two calls later the time slice
  is 1, and the third call returns slot 2 once more, where a scan from slot 2 finds
  slot 5.
\<close>

theorem RoundRobin_rescan_counterexample:
  "os_Scheduler_RoundRobin scenario_table 5 fresh_info = Some (2, fresh_info\<lparr>Zeitschiebe := 3\<rparr>) \<and>
   priority (scenario_table ! 2) = 3 \<and>
   RoundRobin_calls 2 scenario_table 2 (fresh_info\<lparr>Zeitschiebe := 3\<rparr>)
     = Some (2, fresh_info\<lparr>Zeitschiebe := 1\<rparr>) \<and>
   os_Scheduler_RoundRobin scenario_table 2 (fresh_info\<lparr>Zeitschiebe := 1\<rparr>) = Some (2, fresh_info) \<and>
   os_Scheduler_Even scenario_table 2 = Some 5"
  by code_simp

theorem RoundRobin_slice_length_witness:
  "length scenario_table = unat MAX_NUMBER_OF_PROCESSES \<and>
   (5 :: ProcessID) < MAX_NUMBER_OF_PROCESSES \<and>
   Zeitschiebe fresh_info = 0 \<and>
   os_Scheduler_RoundRobin scenario_table 5 fresh_info = Some (2, fresh_info\<lparr>Zeitschiebe := 3\<rparr>) \<and>
   (2 :: ProcessID) \<noteq> 0 \<and>
   ready scenario_table 2 \<and>
   RoundRobin_calls 3 scenario_table 2 (fresh_info\<lparr>Zeitschiebe := 3\<rparr>) = Some (2, fresh_info) \<and>
   map_option fst (RoundRobin_calls 4 scenario_table 2 (fresh_info\<lparr>Zeitschiebe := 3\<rparr>))
     = os_Scheduler_Even scenario_table 2"
proof -
  have h1: "length scenario_table = unat MAX_NUMBER_OF_PROCESSES" by code_simp
  have h2: "(5 :: ProcessID) < MAX_NUMBER_OF_PROCESSES" by code_simp
  have h3: "Zeitschiebe fresh_info = 0" by code_simp
  have h4: "os_Scheduler_RoundRobin scenario_table 5 fresh_info = Some (2, fresh_info\<lparr>Zeitschiebe := 3\<rparr>)"
    by code_simp
  have h5: "(2 :: ProcessID) \<noteq> 0" by simp
  have p: "unat (priority (scenario_table ! unat (2 :: ProcessID))) = 3" by code_simp
  have n: "Suc 3 = 4" by simp
  from RoundRobin_slice_length [OF h1 h2 h3 h4 h5] h1 h2 h3 h4 show ?thesis
    unfolding p n by simp
qed


section \<open>InactiveAging: the selection loop\<close>

lemma key_less:
  "key processes ages m < key processes ages i \<longleftrightarrow>
     ages ! m < ages ! i \<or>
     (ages ! m = ages ! i \<and> priority (processes ! m) < priority (processes ! i))"
  by (auto simp: key_def less_prod_def)

lemma unat_of_nat8: "i < 8 \<Longrightarrow> unat (of_nat i :: 8 word) = i"
  by (simp add: unat_of_nat)

lemma aging_branch_eq:
  assumes "length processes = 8" "length ages = 8" "i < 8" "unat M < 8"
  shows "aging_branch processes ages i M =
     Some (if state (processes ! i) = OS_PS_READY \<and> ages ! unat M < ages ! i then OlderAge
           else if state (processes ! i) = OS_PS_READY \<and> ages ! i = ages ! unat M
                   \<and> priority (processes ! unat M) < priority (processes ! i) then HigherPriority
           else NoBranch)"
  using assms
  by (simp add: aging_branch_def aging_cond1_def aging_cond2_def aging_cond3_def
      proc_at_def age_at_def)

lemma aging_select_eq:
  assumes "length processes = 8" "length ages = 8"
  shows "\<forall>i \<in> set is. i < 8 \<Longrightarrow> unat M < 8 \<Longrightarrow>
         aging_select processes ages is M = Some (of_nat (pick processes ages is (unat M)))"
proof (induction "is" arbitrary: M)
  case Nil
  then show ?case by simp
next
  case (Cons i "is")
  have i: "i < 8" using Cons.prems by simp
  let ?M = "if beats processes ages i (unat M) then of_nat i else M"
  have b: "aging_branch processes ages i M =
       Some (if state (processes ! i) = OS_PS_READY \<and> ages ! unat M < ages ! i then OlderAge
           else if state (processes ! i) = OS_PS_READY \<and> ages ! i = ages ! unat M
                   \<and> priority (processes ! unat M) < priority (processes ! i) then HigherPriority
           else NoBranch)"
    by (rule aging_branch_eq [OF assms i Cons.prems(2)])
  have step: "aging_select processes ages (i # is) M = aging_select processes ages is ?M"
    by (auto simp: b beats_def key_less)
  have u: "unat ?M = (if beats processes ages i (unat M) then i else unat M)"
    using i by (simp add: unat_of_nat8)
  have "unat ?M < 8" using i Cons.prems(2) by (simp add: u)
  then have "aging_select processes ages is ?M = Some (of_nat (pick processes ages is (unat ?M)))"
    using Cons.IH [of ?M] Cons.prems(1) by simp
  then show ?case unfolding step u by simp
qed

lemma pick_props:
  "sorted_wrt (<) (m # is) \<Longrightarrow>
   (pick processes ages is m = m \<or>
      (pick processes ages is m \<in> set is
        \<and> state (processes ! pick processes ages is m) = OS_PS_READY
        \<and> key processes ages m < key processes ages (pick processes ages is m))) \<and>
   (\<forall>i \<in> set is. state (processes ! i) = OS_PS_READY \<longrightarrow>
       key processes ages i < key processes ages (pick processes ages is m) \<or>
       (key processes ages i = key processes ages (pick processes ages is m)
          \<and> pick processes ages is m \<le> i))"
proof (induction "is" arbitrary: m)
  case Nil
  then show ?case by simp
next
  case (Cons a "is")
  let ?m = "if beats processes ages a m then a else m"
  let ?r = "pick processes ages is ?m"
  have s: "sorted_wrt (<) (?m # is)" using Cons.prems by auto
  note IH = Cons.IH [OF s]
  have r: "pick processes ages (a # is) m = ?r" by simp
  have ma: "m < a" using Cons.prems by simp
  have lt: "\<forall>i \<in> set is. a < i" using Cons.prems by simp
  show ?case
  proof (cases "beats processes ages a m")
    case True
    then show ?thesis using IH ma lt unfolding r
      by (auto simp: beats_def)
  next
    case False
    then show ?thesis using IH ma lt unfolding r
      by (auto simp: beats_def)
  qed
qed

lemma InactiveAging_select_eq:
  assumes "length processes = 8" "length (age info) = 8" "current < 8" "Zeitschiebe info = 0"
  shows "os_Scheduler_InactiveAging processes current info =
     Some (of_nat (pick processes ((age info)[unat current := priority (processes ! unat current)])
                     [1..<8] 0),
           info\<lparr>age := (age info)[unat current := priority (processes ! unat current)]\<rparr>)"
proof -
  let ?ages = "(age info)[unat current := priority (processes ! unat current)]"
  have c: "unat current < 8" using assms(3) by (simp add: word_less_nat_alt)
  have l: "length ?ages = 8" using assms(2) by simp
  have "aging_select processes ?ages [1..<8] 0 =
        Some (of_nat (pick processes ?ages [1..<8] (unat (0 :: ProcessID))))"
    by (rule aging_select_eq [OF assms(1) l]) simp_all
  then show ?thesis
    using assms c by (simp add: os_Scheduler_InactiveAging_def proc_at_def set_age_def)
qed

lemma pick_from_idle:
  "(pick processes ages [1..<8] 0 = 0 \<or>
      (1 \<le> pick processes ages [1..<8] 0 \<and> pick processes ages [1..<8] 0 < 8
        \<and> state (processes ! pick processes ages [1..<8] 0) = OS_PS_READY
        \<and> key processes ages 0 < key processes ages (pick processes ages [1..<8] 0))) \<and>
   (\<forall>i. 1 \<le> i \<and> i < 8 \<and> state (processes ! i) = OS_PS_READY \<longrightarrow>
       key processes ages i < key processes ages (pick processes ages [1..<8] 0) \<or>
       (key processes ages i = key processes ages (pick processes ages [1..<8] 0)
          \<and> pick processes ages [1..<8] 0 \<le> i))"
proof -
  have "sorted_wrt (<) (0 # [1..<8])" by simp
  from pick_props [OF this, of processes ages] show ?thesis by simp
qed

text \<open>
  Claim C4 says that in the selection phase, of two READY real slots with equal priority
  the one with the strictly greater accumulated age is always selected. The code does not
  do that. In \<open>aging_table\<close> slots 1 and 2 are the READY slots, with equal priority and
  accumulated ages 5 and 3.
  \<^item> With slot 1 current, \<^verbatim>\<open>age[current] = processes[current].priority\<close> overwrites
    the age 5 with 1 before the comparison, and slot 2 is returned; its own age 3 is left
    as it is. The comment of the function says that the oldest process is chosen and that
    the age of the process returned is reset.
  \<^item> With the idle slot current and of priority 9, the age of slot 0 becomes 9, the
    candidate \<^verbatim>\<open>Max = 0\<close> is never replaced, and slot 0 is returned although two real
    slots are READY.
\<close>

theorem InactiveAging_older_slot_not_selected:
  "filter (ready aging_table) real_slots = [1, 2] \<and>
   priority (aging_table ! 1) = priority (aging_table ! 2) \<and>
   age aging_info ! 2 < age aging_info ! 1 \<and> Zeitschiebe aging_info = 0 \<and>
   os_Scheduler_InactiveAging aging_table 1 aging_info
     = Some (2, aging_info\<lparr>age := [0, 1, 3, 0, 0, 0, 0, 0]\<rparr>) \<and>
   os_Scheduler_InactiveAging (aging_table[0 := proc OS_PS_UNUSED 9]) 0 aging_info
     = Some (0, aging_info\<lparr>age := [9, 5, 3, 0, 0, 0, 0, 0]\<rparr>)"
  by code_simp

section \<open>InactiveAging: the record of slot 0\<close>

text \<open>
  Claim C5 says that the record of slot 0 does not influence the choice: two tables that
  differ only in the state and priority of slot 0 give the same result in the selection
  phase. The code does not do that. Slot 1 is the only READY slot and the idle slot is
  current. With priority 0 in slot 0, slot 1 is returned. With priority 5 in slot 0,
  \<^verbatim>\<open>age[current] = processes[current].priority\<close> sets the age of slot 0 to 5, the
  comparison against the candidate \<^verbatim>\<open>Max = 0\<close> fails for slot 1, and slot 0 is
  returned. On that second table the other four selectors return slot 1.
\<close>

theorem InactiveAging_idle_record_decides:
  "filter (ready (single_ready 1)) real_slots = [1] \<and> Zeitschiebe fresh_info = 0 \<and>
   map_option fst (os_Scheduler_InactiveAging (single_ready 1) 0 fresh_info) = Some 1 \<and>
   map_option fst
     (os_Scheduler_InactiveAging ((single_ready 1)[0 := proc OS_PS_BLOCKED 5]) 0 fresh_info)
     = Some 0 \<and>
   os_Scheduler_Even ((single_ready 1)[0 := proc OS_PS_BLOCKED 5]) 0 = Some 1 \<and>
   map_option fst
     (os_Scheduler_RoundRobin ((single_ready 1)[0 := proc OS_PS_BLOCKED 5]) 0 fresh_info)
     = Some 1 \<and>
   os_Scheduler_RunToCompletion ((single_ready 1)[0 := proc OS_PS_BLOCKED 5]) 0 0 = Some 1 \<and>
   os_Scheduler_Random ((single_ready 1)[0 := proc OS_PS_BLOCKED 5]) 0
     (os_getNumberOfReadyProcs ((single_ready 1)[0 := proc OS_PS_BLOCKED 5])) 0 = Some 1"
  by code_simp

section \<open>The reset contract\<close>

lemma zero_ages_Some:
  "\<forall>i \<in> set is. i < length ages \<Longrightarrow>
   \<exists>ages'. zero_ages is ages = Some ages' \<and> length ages' = length ages \<and>
     (\<forall>j < length ages. ages' ! j = (if j \<in> set is then 0 else ages ! j))"
proof (induction "is" arbitrary: ages)
  case Nil
  then show ?case by simp
next
  case (Cons i "is")
  have "\<forall>k \<in> set is. k < length (ages[i := 0])" using Cons.prems by simp
  from Cons.IH [OF this] obtain ages' where
    z: "zero_ages is (ages[i := 0]) = Some ages'" and l: "length ages' = length ages"
    and v: "\<forall>j < length ages. ages' ! j = (if j \<in> set is then 0 else ages[i := 0] ! j)"
    by auto
  have "zero_ages (i # is) ages = Some ages'"
    using Cons.prems z by (simp add: set_age_def)
  moreover have "\<forall>j < length ages. ages' ! j = (if j \<in> set (i # is) then 0 else ages ! j)"
    using v by (auto simp: nth_list_update)
  ultimately show ?case using l by blast
qed

text \<open>
  Claim C7. With an age array of \<^verbatim>\<open>MAX_NUMBER_OF_PROCESSES\<close> entries:
  \<^verbatim>\<open>os_resetSchedulingInformation\<close> for InactiveAging leaves every age at zero (and
  the time slice as it was); \<^verbatim>\<open>os_resetProcessSchedulingInformation\<close> for a slot of the
  table leaves the age of that slot at zero, whatever it was; and for a strategy other
  than RoundRobin and InactiveAging \<^verbatim>\<open>os_resetSchedulingInformation\<close> leaves the
  scheduling state as it is.
\<close>

theorem reset_contract:
  assumes "length (age info) = unat MAX_NUMBER_OF_PROCESSES"
  shows "(\<exists>info'. os_resetSchedulingInformation OS_SS_INACTIVE_AGING processes current info = Some info'
            \<and> length (age info') = unat MAX_NUMBER_OF_PROCESSES
            \<and> (\<forall>a \<in> set (age info'). a = 0)
            \<and> Zeitschiebe info' = Zeitschiebe info) \<and>
         (pid < MAX_NUMBER_OF_PROCESSES \<longrightarrow>
            (\<exists>info'. os_resetProcessSchedulingInformation pid info = Some info'
               \<and> age info' ! unat pid = 0)) \<and>
         (strategy \<noteq> OS_SS_ROUND_ROBIN \<and> strategy \<noteq> OS_SS_INACTIVE_AGING \<longrightarrow>
            os_resetSchedulingInformation strategy processes current info = Some info)"
proof -
  have la: "length (age info) = 8" using assms by (simp add: MAX_NUMBER_OF_PROCESSES_def)
  have "\<forall>i \<in> set [0..<8]. i < length (age info)" using la by simp
  from zero_ages_Some [OF this] obtain ages' where
    z: "zero_ages [0..<8] (age info) = Some ages'" and l: "length ages' = 8"
    and v: "\<forall>j < 8. ages' ! j = 0"
    using la by auto
  have "\<forall>a \<in> set ages'. a = 0" using l v by (auto simp: in_set_conv_nth)
  then have 1: "\<exists>info'. os_resetSchedulingInformation OS_SS_INACTIVE_AGING processes current info = Some info'
            \<and> length (age info') = unat MAX_NUMBER_OF_PROCESSES
            \<and> (\<forall>a \<in> set (age info'). a = 0)
            \<and> Zeitschiebe info' = Zeitschiebe info"
    using z l by (simp add: os_resetSchedulingInformation_def MAX_NUMBER_OF_PROCESSES_def)
  have 2: "\<exists>info'. os_resetProcessSchedulingInformation pid info = Some info'
               \<and> age info' ! unat pid = 0" if "pid < MAX_NUMBER_OF_PROCESSES"
    using that la
    by (simp add: os_resetProcessSchedulingInformation_def set_age_def
        MAX_NUMBER_OF_PROCESSES_def word_less_nat_alt)
  have 3: "os_resetSchedulingInformation strategy processes current info = Some info"
    if "strategy \<noteq> OS_SS_ROUND_ROBIN \<and> strategy \<noteq> OS_SS_INACTIVE_AGING"
    using that by (simp add: os_resetSchedulingInformation_def)
  from 1 2 3 show ?thesis by blast
qed

theorem reset_contract_witness:
  "length (age aging_info) = unat MAX_NUMBER_OF_PROCESSES \<and>
   (1 :: ProcessID) < MAX_NUMBER_OF_PROCESSES \<and> age aging_info ! unat (1 :: ProcessID) = 5 \<and>
   OS_SS_EVEN \<noteq> OS_SS_ROUND_ROBIN \<and> OS_SS_EVEN \<noteq> OS_SS_INACTIVE_AGING \<and>
   (\<exists>info'. os_resetSchedulingInformation OS_SS_INACTIVE_AGING scenario_table 2 aging_info = Some info'
       \<and> (\<forall>a \<in> set (age info'). a = 0)) \<and>
   (\<exists>info'. os_resetProcessSchedulingInformation 1 aging_info = Some info'
       \<and> age info' ! unat (1 :: ProcessID) = 0) \<and>
   os_resetSchedulingInformation OS_SS_EVEN scenario_table 2 aging_info = Some aging_info"
proof -
  have h: "length (age aging_info) = unat MAX_NUMBER_OF_PROCESSES" by code_simp
  have p: "(1 :: ProcessID) < MAX_NUMBER_OF_PROCESSES" by code_simp
  have a: "age aging_info ! unat (1 :: ProcessID) = 5" by code_simp
  from reset_contract [OF h, of scenario_table 2 1 OS_SS_EVEN] h p a
  show ?thesis by auto
qed


section \<open>Totality and range of the selectors\<close>

lemma age_accumulate_Some:
  assumes "length processes = 8"
  shows "\<forall>i \<in> set is. i < 8 \<Longrightarrow> length ages = 8 \<Longrightarrow>
         \<exists>ages'. age_accumulate processes current is ages = Some ages' \<and> length ages' = 8"
proof (induction "is" arbitrary: ages)
  case Nil
  then show ?case by simp
next
  case (Cons i "is")
  have i: "i < 8" using Cons.prems by simp
  show ?case
  proof (cases "unat current = i")
    case True
    then show ?thesis using Cons by simp
  next
    case False
    let ?a = "ages[i := ages ! i + priority (processes ! i)]"
    have "length ?a = 8" using Cons.prems by simp
    from Cons.IH [OF _ this] Cons.prems(1) obtain ages' where
      "age_accumulate processes current is ?a = Some ages'" "length ages' = 8" by auto
    then show ?thesis
      using False i assms Cons.prems(2)
      by (simp add: proc_at_def age_at_def set_age_def)
  qed
qed

lemma real_slots_unat: "j \<in> set real_slots \<Longrightarrow> 1 \<le> unat j \<and> unat j < 8"
  by (auto simp: real_slots_def MAX_NUMBER_OF_PROCESSES_def unat_of_nat8)

lemma real_slots_lt: "j \<in> set real_slots \<Longrightarrow> j < 8"
  using real_slots_unat [of j] by (simp add: word_less_nat_alt)

lemma collect_ready_elems:
  "collect_ready processes js procIndex i = Some (procIndex', i') \<Longrightarrow>
   length procIndex' = length procIndex \<and>
   (\<forall>a < length procIndex. procIndex' ! a = procIndex ! a \<or> (\<exists>j \<in> set js. procIndex' ! a = Some j))"
proof (induction js arbitrary: procIndex i)
  case Nil
  then show ?case by simp
next
  case (Cons j js)
  show ?case
  proof (cases "proc_at processes (unat j)")
    case None
    then show ?thesis using Cons.prems by simp
  next
    case (Some p)
    show ?thesis
    proof (cases "state p = OS_PS_READY")
      case True
      then have w: "unat i < length procIndex"
        and rest: "collect_ready processes js (procIndex[unat i := Some j]) (i + 1) = Some (procIndex', i')"
        using Cons.prems Some by (auto split: if_splits)
      from Cons.IH [OF rest] have l: "length procIndex' = length procIndex"
        and v: "\<forall>a < length procIndex. procIndex' ! a = procIndex[unat i := Some j] ! a
                  \<or> (\<exists>k \<in> set js. procIndex' ! a = Some k)"
        by simp_all
      have "procIndex' ! a = procIndex ! a \<or> (\<exists>k \<in> set (j # js). procIndex' ! a = Some k)"
        if a: "a < length procIndex" for a
      proof (cases "a = unat i")
        case True
        then show ?thesis using v a by auto
      next
        case False
        then show ?thesis using v a by auto
      qed
      then show ?thesis using l by blast
    next
      case False
      then have "collect_ready processes js procIndex i = Some (procIndex', i')"
        using Cons.prems Some by simp
      from Cons.IH [OF this] show ?thesis by auto
    qed
  qed
qed

lemma Random_range:
  assumes "os_Scheduler_Random processes current numOfReadyProc rnd = Some x"
  shows "x < 8"
proof -
  from assms obtain procIndex i where
    c: "collect_ready processes real_slots (replicate (unat numOfReadyProc) None) 0 = Some (procIndex, i)"
    and x: "(if i = 0 then Some 0 else if numOfReadyProc = 0 then None
             else procIndex ! (rnd mod unat numOfReadyProc)) = Some x"
    by (auto simp: os_Scheduler_Random_def split: Option.bind_splits)
  show ?thesis
  proof (cases "i = 0")
    case True
    then show ?thesis using x by auto
  next
    case False
    then have n: "numOfReadyProc \<noteq> 0" and v: "procIndex ! (rnd mod unat numOfReadyProc) = Some x"
      using x by (auto split: if_splits)
    from n have "0 < unat numOfReadyProc" by (simp add: unat_gt_0)
    then have "rnd mod unat numOfReadyProc < length (replicate (unat numOfReadyProc) (None :: ProcessID option))"
      by simp
    with collect_ready_elems [OF c] v have "x \<in> set real_slots" by auto
    then show ?thesis by (rule real_slots_lt)
  qed
qed

lemma collect_ready_Some:
  assumes "length processes = 8"
  shows "\<forall>j \<in> set js. unat j < 8 \<Longrightarrow>
         unat i + length (filter (ready processes) js) \<le> length procIndex \<Longrightarrow>
         length procIndex < 256 \<Longrightarrow>
         \<forall>a < unat i. procIndex ! a \<noteq> None \<Longrightarrow>
         \<exists>procIndex'. collect_ready processes js procIndex i =
             Some (procIndex', i + of_nat (length (filter (ready processes) js))) \<and>
           length procIndex' = length procIndex \<and>
           (\<forall>a < unat i + length (filter (ready processes) js). procIndex' ! a \<noteq> None)"
proof (induction js arbitrary: procIndex i)
  case Nil
  then show ?case by simp
next
  case (Cons j js)
  have rd: "proc_at processes (unat j) = Some (processes ! unat j)"
    using Cons.prems(1) assms by (simp add: proc_at_def)
  have js: "\<forall>k \<in> set js. unat k < 8" using Cons.prems(1) by simp
  show ?case
  proof (cases "ready processes j")
    case True
    let ?p = "procIndex[unat i := Some j]"
    have w: "unat i < length procIndex" using Cons.prems(2) True by simp
    then have u: "unat (i + 1) = Suc (unat i)"
      using Cons.prems(3) by (simp add: unat_succ8)
    have 1: "unat (i + 1) + length (filter (ready processes) js) \<le> length ?p"
      using Cons.prems(2) True u by simp
    have 2: "length ?p < 256" using Cons.prems(3) by simp
    have 3: "\<forall>a < unat (i + 1). ?p ! a \<noteq> None"
      using Cons.prems(4) w u by (auto simp: nth_list_update)
    from Cons.IH [OF js 1 2 3] obtain procIndex' where
      r: "collect_ready processes js ?p (i + 1) =
            Some (procIndex', i + 1 + of_nat (length (filter (ready processes) js)))"
      and l: "length procIndex' = length ?p"
      and v: "\<forall>a < unat (i + 1) + length (filter (ready processes) js). procIndex' ! a \<noteq> None"
      by blast
    have "collect_ready processes (j # js) procIndex i =
            Some (procIndex', i + of_nat (length (filter (ready processes) (j # js))))"
      using True w r rd by (simp add: ready_def algebra_simps)
    then show ?thesis using l v u True by auto
  next
    case False
    from Cons.IH [OF js _ Cons.prems(3,4)] Cons.prems(2) False obtain procIndex' where
      "collect_ready processes js procIndex i =
            Some (procIndex', i + of_nat (length (filter (ready processes) js)))"
      "length procIndex' = length procIndex"
      "\<forall>a < unat i + length (filter (ready processes) js). procIndex' ! a \<noteq> None"
      by auto
    moreover have "state (processes ! unat j) \<noteq> OS_PS_READY"
      using False by (simp add: ready_def)
    ultimately show ?thesis using False rd by simp
  qed
qed

lemma ready_count:
  "length (filter (ready processes) real_slots) =
   length (filter (\<lambda>j. state (processes ! j) = OS_PS_READY) [1..<8])"
proof -
  have "filter (ready processes \<circ> of_nat) [1..<8] =
        filter (\<lambda>j. state (processes ! j) = OS_PS_READY) [1..<8]"
    by (rule filter_cong) (auto simp: ready_def unat_of_nat8)
  then show ?thesis
    by (simp add: real_slots_def MAX_NUMBER_OF_PROCESSES_def filter_map)
qed

lemma Random_Some:
  assumes "length processes = 8"
  shows "\<exists>x. os_Scheduler_Random processes current (os_getNumberOfReadyProcs processes) rnd = Some x"
proof -
  let ?c = "length (filter (ready processes) real_slots)"
  let ?n = "os_getNumberOfReadyProcs processes"
  have "?c \<le> length real_slots" by (rule length_filter_le)
  then have c7: "?c \<le> 7" by (simp add: real_slots_def MAX_NUMBER_OF_PROCESSES_def)
  have n: "?n = of_nat ?c" by (simp add: os_getNumberOfReadyProcs_def ready_count)
  have un: "unat ?n = ?c" using c7 by (simp add: n unat_of_nat)
  have "\<exists>procIndex'. collect_ready processes real_slots (replicate ?c None) 0 =
             Some (procIndex', 0 + of_nat ?c) \<and>
           length procIndex' = length (replicate ?c (None :: ProcessID option)) \<and>
           (\<forall>a < unat (0 :: 8 word) + ?c. procIndex' ! a \<noteq> None)"
    using c7 real_slots_unat
    by (intro collect_ready_Some [OF assms]) auto
  then obtain procIndex' where
    r: "collect_ready processes real_slots (replicate ?c None) 0 = Some (procIndex', ?n)"
    and v: "\<forall>a < ?c. procIndex' ! a \<noteq> None"
    by (auto simp: n)
  show ?thesis
  proof (cases "?n = 0")
    case True
    then show ?thesis using r un by (simp add: os_Scheduler_Random_def)
  next
    case False
    then have "0 < unat ?n" by (simp add: unat_gt_0)
    then have "0 < ?c" using un by simp
    then have "rnd mod ?c < ?c" by simp
    with v have "procIndex' ! (rnd mod ?c) \<noteq> None" by blast
    then show ?thesis using False r un by (auto simp: os_Scheduler_Random_def)
  qed
qed


lemma first_ready_probe_lt: "real_slot i \<Longrightarrow> first_ready processes (probe_seq i n) < 8"
  using probe_seq_real [of i _ n] by (intro first_ready_lt) blast

lemma RoundRobin_Some:
  assumes "length processes = 8" "current < 8"
  shows "\<exists>r info'. os_Scheduler_RoundRobin processes current info = Some (r, info') \<and> r < 8"
proof (cases "Zeitschiebe info = 0")
  case True
  have rs: "real_slot (next_slot current)" by (rule real_slot_start [OF assms(2)])
  show ?thesis
  proof (cases "find (ready processes) (probe_seq (next_slot current) 6)")
    case None
    then show ?thesis using RoundRobin_scan_eq [OF assms True] by simp
  next
    case (Some k)
    then have "k < 8"
      using find_probe_real [OF rs Some] by (simp add: real_slot_def MAX_NUMBER_OF_PROCESSES_def)
    then show ?thesis using RoundRobin_scan_eq [OF assms True] Some by simp
  qed
next
  case False
  then have "0 < Zeitschiebe info" by (simp add: word_neq_0_conv)
  then show ?thesis using assms(2) by (simp add: os_Scheduler_RoundRobin_def)
qed

lemma pick_lt: "\<forall>i \<in> set is. i < 8 \<Longrightarrow> m < 8 \<Longrightarrow> pick processes ages is m < 8"
  by (induction "is" arbitrary: m) auto

lemma InactiveAging_Some:
  assumes "length processes = 8" "length (age info) = 8" "current < 8"
  shows "\<exists>r info'. os_Scheduler_InactiveAging processes current info = Some (r, info') \<and> r < 8"
proof (cases "Zeitschiebe info = 0")
  case True
  let ?q = "pick processes ((age info)[unat current := priority (processes ! unat current)]) [1..<8] 0"
  have "?q < 8" by (rule pick_lt) simp_all
  then have "(of_nat ?q :: ProcessID) < 8" by (simp add: word_less_nat_alt unat_of_nat8)
  then show ?thesis using InactiveAging_select_eq [OF assms True] by simp
next
  case False
  then have pos: "0 < Zeitschiebe info" by (simp add: word_neq_0_conv)
  have "\<forall>i \<in> set [1..<8]. i < 8" by simp
  from age_accumulate_Some [OF assms(1) this assms(2), of current] obtain ages' where
    "age_accumulate processes current [1..<8] (age info) = Some ages'" by blast
  then show ?thesis using pos assms(3) by (simp add: os_Scheduler_InactiveAging_def)
qed

lemma RunToCompletion_Some:
  assumes "length processes = 8" "current < 8"
  shows "\<exists>r. os_Scheduler_RunToCompletion processes current counter0 = Some r \<and> r < 8"
proof -
  have "real_slot 1" by (simp add: real_slot_unat)
  then have "first_ready processes (probe_seq 1 (probes counter0)) < 8"
    by (rule first_ready_probe_lt)
  then show ?thesis using RunToCompletion_eq [OF assms] assms(2) by simp
qed

lemma Even_Some:
  assumes "length processes = 8" "current < 8"
  shows "\<exists>r. os_Scheduler_Even processes current = Some r \<and> r < 8"
  using Even_eq [OF assms] first_ready_probe_lt [OF real_slot_start [OF assms(2)]] by simp

text \<open>
  Claim C8. On a table of \<^verbatim>\<open>MAX_NUMBER_OF_PROCESSES\<close> records, with as many ages and a
  current slot inside the table, every call of each of the five selectors returns a slot:
  the scan loops terminate and no access leaves the arrays. For RunToCompletion this holds
  whatever value the counter starts with; for Random it holds whatever \<^verbatim>\<open>rand()\<close>
  returns, with \<^verbatim>\<open>os_getNumberOfReadyProcs()\<close> returning the number of READY real
  slots of the table.
\<close>

theorem selectors_total:
  assumes "length processes = unat MAX_NUMBER_OF_PROCESSES"
    and "length (age info) = unat MAX_NUMBER_OF_PROCESSES"
    and "current < MAX_NUMBER_OF_PROCESSES"
  shows "(\<exists>r. os_Scheduler_Even processes current = Some r) \<and>
         (\<exists>r. os_Scheduler_Random processes current (os_getNumberOfReadyProcs processes) rnd = Some r) \<and>
         (\<exists>r info'. os_Scheduler_RoundRobin processes current info = Some (r, info')) \<and>
         (\<exists>r info'. os_Scheduler_InactiveAging processes current info = Some (r, info')) \<and>
         (\<exists>r. os_Scheduler_RunToCompletion processes current counter0 = Some r)"
proof -
  have len: "length processes = 8" and la: "length (age info) = 8" and cur: "current < 8"
    using assms by (simp_all add: MAX_NUMBER_OF_PROCESSES_def)
  show ?thesis
    using Even_Some [OF len cur] Random_Some [OF len, of current rnd]
      RoundRobin_Some [OF len cur, of info] InactiveAging_Some [OF len la cur]
      RunToCompletion_Some [OF len cur, of counter0]
    by blast
qed

theorem selectors_total_witness:
  "length scenario_table = unat MAX_NUMBER_OF_PROCESSES \<and>
   length (age fresh_info) = unat MAX_NUMBER_OF_PROCESSES \<and>
   (5 :: ProcessID) < MAX_NUMBER_OF_PROCESSES \<and>
   (\<exists>r. os_Scheduler_Even scenario_table 5 = Some r) \<and>
   (\<exists>r. os_Scheduler_Random scenario_table 5 (os_getNumberOfReadyProcs scenario_table) 7 = Some r) \<and>
   (\<exists>r info'. os_Scheduler_RoundRobin scenario_table 5 fresh_info = Some (r, info')) \<and>
   (\<exists>r info'. os_Scheduler_InactiveAging scenario_table 5 fresh_info = Some (r, info')) \<and>
   (\<exists>r. os_Scheduler_RunToCompletion scenario_table 5 255 = Some r)"
proof -
  have h1: "length scenario_table = unat MAX_NUMBER_OF_PROCESSES" by code_simp
  have h2: "length (age fresh_info) = unat MAX_NUMBER_OF_PROCESSES" by code_simp
  have h3: "(5 :: ProcessID) < MAX_NUMBER_OF_PROCESSES" by code_simp
  from selectors_total [OF h1 h2 h3, of 7 255] h1 h2 h3 show ?thesis by simp
qed

text \<open>
  Claim C6, as amended. Under the same conditions every selector returns an index of the
  table, that is a slot below \<^verbatim>\<open>MAX_NUMBER_OF_PROCESSES\<close>: Even, RoundRobin and
  InactiveAging for every scheduling state, RunToCompletion for every value the counter
  starts with, and Random for every value of \<^verbatim>\<open>rand()\<close>, with
  \<^verbatim>\<open>os_getNumberOfReadyProcs()\<close> returning the number of READY real slots of the table.
\<close>

theorem selector_result_in_table:
  assumes "length processes = unat MAX_NUMBER_OF_PROCESSES"
    and "length (age info) = unat MAX_NUMBER_OF_PROCESSES"
    and "current < MAX_NUMBER_OF_PROCESSES"
  shows "(\<exists>r. os_Scheduler_Even processes current = Some r \<and> r < MAX_NUMBER_OF_PROCESSES) \<and>
         (\<exists>r. os_Scheduler_Random processes current (os_getNumberOfReadyProcs processes) rnd
                 = Some r \<and> r < MAX_NUMBER_OF_PROCESSES) \<and>
         (\<exists>r info'. os_Scheduler_RoundRobin processes current info = Some (r, info')
               \<and> r < MAX_NUMBER_OF_PROCESSES) \<and>
         (\<exists>r info'. os_Scheduler_InactiveAging processes current info = Some (r, info')
               \<and> r < MAX_NUMBER_OF_PROCESSES) \<and>
         (\<exists>r. os_Scheduler_RunToCompletion processes current counter0 = Some r
               \<and> r < MAX_NUMBER_OF_PROCESSES)"
proof -
  have len: "length processes = 8" and la: "length (age info) = 8" and cur: "current < 8"
    using assms by (simp_all add: MAX_NUMBER_OF_PROCESSES_def)
  have m: "MAX_NUMBER_OF_PROCESSES = 8" by (simp add: MAX_NUMBER_OF_PROCESSES_def)
  show ?thesis
    unfolding m
    using Even_Some [OF len cur]
      Random_Some [OF len, of current rnd]
      Random_range [of processes current "os_getNumberOfReadyProcs processes" rnd]
      RoundRobin_Some [OF len cur, of info] InactiveAging_Some [OF len la cur]
      RunToCompletion_Some [OF len cur, of counter0]
    by blast
qed

text \<open>
  The claim as stated bounds the result by \<^verbatim>\<open>MAX_NUMBER_OF_PROCESSES - 2\<close>. Slot 7
  is a real slot: with slot 7 READY and slot 6 current, Even returns 7.
\<close>

theorem selector_result_counterexample:
  "length (single_ready 7) = unat MAX_NUMBER_OF_PROCESSES \<and>
   (6 :: ProcessID) < MAX_NUMBER_OF_PROCESSES \<and>
   os_Scheduler_Even (single_ready 7) 6 = Some 7 \<and>
   \<not> (7 :: ProcessID) \<le> MAX_NUMBER_OF_PROCESSES - 2"
  by code_simp

theorem selector_result_in_table_witness:
  "length scenario_table = unat MAX_NUMBER_OF_PROCESSES \<and>
   length (age fresh_info) = unat MAX_NUMBER_OF_PROCESSES \<and>
   (5 :: ProcessID) < MAX_NUMBER_OF_PROCESSES \<and>
   (\<exists>r. os_Scheduler_Even scenario_table 5 = Some r \<and> r < MAX_NUMBER_OF_PROCESSES) \<and>
   (\<exists>r. os_Scheduler_Random scenario_table 5 (os_getNumberOfReadyProcs scenario_table) 7
           = Some r \<and> r < MAX_NUMBER_OF_PROCESSES) \<and>
   (\<exists>r info'. os_Scheduler_RoundRobin scenario_table 5 fresh_info = Some (r, info')
         \<and> r < MAX_NUMBER_OF_PROCESSES) \<and>
   (\<exists>r info'. os_Scheduler_InactiveAging scenario_table 5 fresh_info = Some (r, info')
         \<and> r < MAX_NUMBER_OF_PROCESSES) \<and>
   (\<exists>r. os_Scheduler_RunToCompletion scenario_table 5 0 = Some r
         \<and> r < MAX_NUMBER_OF_PROCESSES)"
proof -
  have h1: "length scenario_table = unat MAX_NUMBER_OF_PROCESSES" by code_simp
  have h2: "length (age fresh_info) = unat MAX_NUMBER_OF_PROCESSES" by code_simp
  have h3: "(5 :: ProcessID) < MAX_NUMBER_OF_PROCESSES" by code_simp
  from selector_result_in_table [OF h1 h2 h3, of 7 0] h1 h2 h3 show ?thesis by simp
qed


section \<open>When a selector returns a real slot\<close>

lemma probe_seq_upward:
  "1 \<le> unat i \<Longrightarrow> unat i + n \<le> 8 \<Longrightarrow> unat i \<le> unat k \<Longrightarrow> unat k < unat i + n \<Longrightarrow>
   k \<in> set (probe_seq i n)"
proof (induction n arbitrary: i)
  case 0
  then show ?case by simp
next
  case (Suc n)
  show ?case
  proof (cases "unat k = unat i")
    case True
    then have "k = i" by (simp add: word_unat_eq_iff)
    then show ?thesis by simp
  next
    case False
    then have "unat (next_slot i) = Suc (unat i)"
      using Suc.prems by (simp add: unat_next_slot)
    then have "k \<in> set (probe_seq (next_slot i) n)"
      using Suc.prems False by (intro Suc.IH) simp_all
    then show ?thesis by simp
  qed
qed

lemma probes_le: "probes c \<le> 7"
  by (simp add: probes_unat) arith

lemma Even_nonzero:
  assumes "length processes = 8" "current < 8" "probed current k" "ready processes k"
  shows "\<exists>r. os_Scheduler_Even processes current = Some r \<and> r \<noteq> 0"
proof -
  have rs: "real_slot (next_slot current)" by (rule real_slot_start [OF assms(2)])
  have "k \<in> set (probe_seq (next_slot current) 6)" by (rule probed_in_seq [OF assms(2,3)])
  moreover have "\<forall>j \<in> set (probe_seq (next_slot current) 6). real_slot j"
    using probe_seq_real [OF rs] by blast
  ultimately have "first_ready processes (probe_seq (next_slot current) 6) \<noteq> 0"
    using first_ready_found [of k _ processes] assms(4) by blast
  then show ?thesis using Even_eq [OF assms(1,2)] by simp
qed

lemma RoundRobin_nonzero:
  assumes "length processes = 8" "current < 8" "Zeitschiebe info = 0"
    "probed current k" "ready processes k"
  shows "\<exists>r info'. os_Scheduler_RoundRobin processes current info = Some (r, info') \<and> r \<noteq> 0"
proof -
  from Even_nonzero [OF assms(1,2,4,5)] obtain r where
    "os_Scheduler_Even processes current = Some r" "r \<noteq> 0" by blast
  then show ?thesis
    using RoundRobin_slot_eq_Even [OF assms(1-3)] by (auto simp: map_option_case split: option.splits)
qed

lemma RunToCompletion_nonzero:
  assumes "length processes = 8" "current < 8"
    "state (processes ! unat current) \<noteq> OS_PS_RUNNING"
    "real_slot k" "unat k \<le> probes counter0" "ready processes k"
  shows "\<exists>r. os_Scheduler_RunToCompletion processes current counter0 = Some r \<and> r \<noteq> 0"
proof -
  have rs: "real_slot 1" by (simp add: real_slot_unat)
  have "k \<in> set (probe_seq 1 (probes counter0))"
    using assms(4,5) probes_le [of counter0]
    by (intro probe_seq_upward) (simp_all add: real_slot_unat)
  moreover have "\<forall>j \<in> set (probe_seq 1 (probes counter0)). real_slot j"
    using probe_seq_real [OF rs] by blast
  ultimately have "first_ready processes (probe_seq 1 (probes counter0)) \<noteq> 0"
    using first_ready_found [of k _ processes] assms(6) by blast
  then show ?thesis using RunToCompletion_eq [OF assms(1,2)] assms(3) by simp
qed

lemma InactiveAging_nonzero:
  assumes "length processes = 8" "length (age info) = 8" "current < 8" "Zeitschiebe info = 0"
    "real_slot k" "ready processes k"
    "above_idle processes ((age info)[unat current := priority (processes ! unat current)]) k"
  shows "\<exists>r info'. os_Scheduler_InactiveAging processes current info = Some (r, info') \<and> r \<noteq> 0"
proof -
  let ?ages = "(age info)[unat current := priority (processes ! unat current)]"
  let ?q = "pick processes ?ages [1..<8] 0"
  note P = pick_from_idle [of processes ?ages]
  have k: "1 \<le> unat k \<and> unat k < 8 \<and> state (processes ! unat k) = OS_PS_READY"
    using assms(5,6) by (simp add: real_slot_unat ready_def)
  have "key processes ?ages 0 < key processes ?ages (unat k)"
    using assms(7) by (simp add: above_idle_def key_less)
  moreover from P k have "key processes ?ages (unat k) \<le> key processes ?ages ?q" by fastforce
  ultimately have lt: "key processes ?ages 0 < key processes ?ages ?q" by simp
  have q0: "?q \<noteq> 0"
  proof
    assume e: "?q = 0"
    from lt [unfolded e] show False by simp
  qed
  have "?q < 8" by (rule pick_lt) simp_all
  with q0 have "(of_nat ?q :: ProcessID) \<noteq> 0"
    by (simp add: word_unat_eq_iff unat_of_nat8)
  then show ?thesis using InactiveAging_select_eq [OF assms(1-4)] by simp
qed

lemma slice_returns_current:
  assumes "0 < Zeitschiebe info"
  shows "\<exists>info'. os_Scheduler_RoundRobin processes current info = Some (current, info')"
  using assms by (simp add: os_Scheduler_RoundRobin_def)

lemma aging_returns_current:
  assumes "length processes = 8" "length (age info) = 8" "0 < Zeitschiebe info"
  shows "\<exists>info'. os_Scheduler_InactiveAging processes current info = Some (current, info')"
proof -
  have "\<forall>i \<in> set [1..<8]. i < 8" by simp
  from age_accumulate_Some [OF assms(1) this assms(2), of current] obtain ages' where
    "age_accumulate processes current [1..<8] (age info) = Some ages'" by blast
  then show ?thesis using assms(3) by (simp add: os_Scheduler_InactiveAging_def)
qed

text \<open>
  Claim C1, as amended. On a table of \<^verbatim>\<open>MAX_NUMBER_OF_PROCESSES\<close> records, with as
  many ages and a current slot inside the table, a READY real slot makes a selector return
  a nonzero slot under these conditions:
  \<^item> Even: the READY slot is one of the six slots probed behind \<open>current\<close>;
  \<^item> RoundRobin: the time slice is 0 and the READY slot is one of the slots probed; while
    the time slice is positive the result is \<open>current\<close>, nonzero when \<open>current\<close> is;
  \<^item> RunToCompletion: the current slot is not RUNNING and the READY slot is among the
    slots probed from slot 1 (as many as the start value of the counter allows, slot 1 in
    any case); when the current slot is RUNNING the result is \<open>current\<close>;
  \<^item> InactiveAging: the time slice is 0 and the READY slot is ahead of the idle slot by
    age, or by priority at equal age, after the age of the current slot has been
    overwritten; while the time slice is positive the result is \<open>current\<close>.
\<close>

theorem selection_nonzero:
  assumes "length processes = unat MAX_NUMBER_OF_PROCESSES"
    and "length (age info) = unat MAX_NUMBER_OF_PROCESSES"
    and "current < MAX_NUMBER_OF_PROCESSES"
  shows
   "((\<exists>k. probed current k \<and> ready processes k) \<longrightarrow>
       (\<exists>r. os_Scheduler_Even processes current = Some r \<and> r \<noteq> 0)) \<and>
    ((Zeitschiebe info = 0 \<and> (\<exists>k. probed current k \<and> ready processes k)) \<or>
     (0 < Zeitschiebe info \<and> current \<noteq> 0) \<longrightarrow>
       (\<exists>r info'. os_Scheduler_RoundRobin processes current info = Some (r, info') \<and> r \<noteq> 0)) \<and>
    ((state (processes ! unat current) = OS_PS_RUNNING \<and> current \<noteq> 0) \<or>
     (state (processes ! unat current) \<noteq> OS_PS_RUNNING \<and>
        (\<exists>k. real_slot k \<and> unat k \<le> probes counter0 \<and> ready processes k)) \<longrightarrow>
       (\<exists>r. os_Scheduler_RunToCompletion processes current counter0 = Some r \<and> r \<noteq> 0)) \<and>
    ((0 < Zeitschiebe info \<and> current \<noteq> 0) \<or>
     (Zeitschiebe info = 0 \<and>
        (\<exists>k. real_slot k \<and> ready processes k \<and>
             above_idle processes
               ((age info)[unat current := priority (processes ! unat current)]) k)) \<longrightarrow>
       (\<exists>r info'. os_Scheduler_InactiveAging processes current info = Some (r, info') \<and> r \<noteq> 0))"
proof -
  have len: "length processes = 8" and la: "length (age info) = 8" and cur: "current < 8"
    using assms by (simp_all add: MAX_NUMBER_OF_PROCESSES_def)
  have E: "(\<exists>k. probed current k \<and> ready processes k) \<longrightarrow>
       (\<exists>r. os_Scheduler_Even processes current = Some r \<and> r \<noteq> 0)"
    using Even_nonzero [OF len cur] by blast
  have R: "(Zeitschiebe info = 0 \<and> (\<exists>k. probed current k \<and> ready processes k)) \<or>
     (0 < Zeitschiebe info \<and> current \<noteq> 0) \<longrightarrow>
       (\<exists>r info'. os_Scheduler_RoundRobin processes current info = Some (r, info') \<and> r \<noteq> 0)"
    using RoundRobin_nonzero [OF len cur, of info] slice_returns_current [of info processes current]
    by blast
  have C: "(state (processes ! unat current) = OS_PS_RUNNING \<and> current \<noteq> 0) \<or>
     (state (processes ! unat current) \<noteq> OS_PS_RUNNING \<and>
        (\<exists>k. real_slot k \<and> unat k \<le> probes counter0 \<and> ready processes k)) \<longrightarrow>
       (\<exists>r. os_Scheduler_RunToCompletion processes current counter0 = Some r \<and> r \<noteq> 0)"
    using RunToCompletion_nonzero [OF len cur, of _ counter0] RunToCompletion_eq [OF len cur, of counter0]
    by auto
  have A: "(0 < Zeitschiebe info \<and> current \<noteq> 0) \<or>
     (Zeitschiebe info = 0 \<and>
        (\<exists>k. real_slot k \<and> ready processes k \<and>
             above_idle processes
               ((age info)[unat current := priority (processes ! unat current)]) k)) \<longrightarrow>
       (\<exists>r info'. os_Scheduler_InactiveAging processes current info = Some (r, info') \<and> r \<noteq> 0)"
    using InactiveAging_nonzero [OF len la cur] aging_returns_current [OF len la, of current]
    by blast
  from E R C A show ?thesis by blast
qed

text \<open>
  The claim as stated does not hold. Slot 2 of the scenario table is READY. With the idle
  slot current and a positive time slice, RoundRobin and InactiveAging return slot 0;
  with the idle slot current and RUNNING, RunToCompletion returns slot 0; and in the
  selection phase with the idle slot current and of priority 9, InactiveAging returns
  slot 0.
\<close>

theorem selection_nonzero_counterexample:
  "length scenario_table = unat MAX_NUMBER_OF_PROCESSES \<and>
   (0 :: ProcessID) < MAX_NUMBER_OF_PROCESSES \<and>
   real_slot 2 \<and> ready scenario_table 2 \<and> ready (scenario_table[0 := proc OS_PS_RUNNING 0]) 2 \<and>
   os_Scheduler_RoundRobin scenario_table 0 (fresh_info\<lparr>Zeitschiebe := 1\<rparr>) = Some (0, fresh_info) \<and>
   map_option fst (os_Scheduler_InactiveAging scenario_table 0 (fresh_info\<lparr>Zeitschiebe := 1\<rparr>))
     = Some 0 \<and>
   os_Scheduler_RunToCompletion (scenario_table[0 := proc OS_PS_RUNNING 0]) 0 0 = Some 0 \<and>
   map_option fst (os_Scheduler_InactiveAging (scenario_table[0 := proc OS_PS_UNUSED 9]) 0 fresh_info)
     = Some 0"
  by code_simp

theorem selection_nonzero_witness:
  "length scenario_table = unat MAX_NUMBER_OF_PROCESSES \<and>
   length (age fresh_info) = unat MAX_NUMBER_OF_PROCESSES \<and>
   (5 :: ProcessID) < MAX_NUMBER_OF_PROCESSES \<and>
   probed 5 2 \<and> ready scenario_table 2 \<and> Zeitschiebe fresh_info = 0 \<and>
   state (scenario_table ! unat (5 :: ProcessID)) \<noteq> OS_PS_RUNNING \<and>
   real_slot 2 \<and> unat (2 :: ProcessID) \<le> probes 0 \<and>
   above_idle scenario_table
     ((age fresh_info)[unat (5 :: ProcessID) := priority (scenario_table ! unat (5 :: ProcessID))]) 2 \<and>
   (\<exists>r. os_Scheduler_Even scenario_table 5 = Some r \<and> r \<noteq> 0) \<and>
   (\<exists>r info'. os_Scheduler_RoundRobin scenario_table 5 fresh_info = Some (r, info') \<and> r \<noteq> 0) \<and>
   (\<exists>r. os_Scheduler_RunToCompletion scenario_table 5 0 = Some r \<and> r \<noteq> 0) \<and>
   (\<exists>r info'. os_Scheduler_InactiveAging scenario_table 5 fresh_info = Some (r, info') \<and> r \<noteq> 0)"
proof -
  have h1: "length scenario_table = unat MAX_NUMBER_OF_PROCESSES" by code_simp
  have h2: "length (age fresh_info) = unat MAX_NUMBER_OF_PROCESSES" by code_simp
  have h3: "(5 :: ProcessID) < MAX_NUMBER_OF_PROCESSES" by code_simp
  have a1: "probed 5 2" by code_simp
  have a2: "ready scenario_table 2" by code_simp
  have a3: "Zeitschiebe fresh_info = 0" by code_simp
  have a4: "state (scenario_table ! unat (5 :: ProcessID)) \<noteq> OS_PS_RUNNING" by code_simp
  have a5: "real_slot 2" by code_simp
  have a6: "unat (2 :: ProcessID) \<le> probes 0" by code_simp
  have a7: "above_idle scenario_table
     ((age fresh_info)[unat (5 :: ProcessID) := priority (scenario_table ! unat (5 :: ProcessID))]) 2"
    by code_simp
  from selection_nonzero [OF h1 h2 h3, of 0] a1 a2 a3 a4 a5 a6 a7
  have "(\<exists>r. os_Scheduler_Even scenario_table 5 = Some r \<and> r \<noteq> 0) \<and>
   (\<exists>r info'. os_Scheduler_RoundRobin scenario_table 5 fresh_info = Some (r, info') \<and> r \<noteq> 0) \<and>
   (\<exists>r. os_Scheduler_RunToCompletion scenario_table 5 0 = Some r \<and> r \<noteq> 0) \<and>
   (\<exists>r info'. os_Scheduler_InactiveAging scenario_table 5 fresh_info = Some (r, info') \<and> r \<noteq> 0)"
    by blast
  with h1 h2 h3 a1 a2 a3 a4 a5 a6 a7 show ?thesis by blast
qed


end
